theory Spec2Isabelle
  imports Complex_Main "HOL-Library.Word" "HOL-Library.Signed_Division"
begin

section \<open>JavaScript values used by the timer\<close>

text \<open>
  A JavaScript string is a sequence of 16-bit UTF-16 code units; \<open>length\<close> counts
  code units, as the source's \<open>.length\<close> does. The block characters of the display (U+2588, U+2591)
  are one code unit each. Numbers that the program only ever uses as integers are
  \<open>int\<close>. The progress fraction is an exact rational (every double is one), and so is
  its product with the bar width: the double that JavaScript computes for the product
  is the representable number nearest to it, which lies between 0 and the bar width
  whenever the exact product does.
\<close>

type_synonym jsstring = "16 word list"

datatype js_error = RangeError | TypeError

definition ascii :: "string \<Rightarrow> jsstring" where
  "ascii s = map of_char s"

abbreviation (input) FB :: "16 word" where "FB \<equiv> 9608"
abbreviation (input) SH :: "16 word" where "SH \<equiv> 9617"
abbreviation (input) SP :: "16 word" where "SP \<equiv> 32"
abbreviation (input) NL :: "16 word" where "NL \<equiv> 10"
abbreviation (input) ESC :: "16 word" where "ESC \<equiv> 27"
abbreviation (input) BEL :: "16 word" where "BEL \<equiv> 7"

text \<open>\<open>String.prototype.repeat\<close>: a negative count throws a RangeError.\<close>

definition js_repeat :: "jsstring \<Rightarrow> int \<Rightarrow> js_error + jsstring" where
  "js_repeat s n = (if n < 0 then Inl RangeError else Inr (concat (replicate (nat n) s)))"

text \<open>\<open>Math.round\<close>: the nearest integer, a half rounded towards plus infinity.\<close>

definition js_round :: "rat \<Rightarrow> int" where
  "js_round x = \<lfloor>x + 1 / 2\<rfloor>"

text \<open>\<open>x || d\<close> on a number that may be undefined: undefined and 0 are falsy.\<close>

definition or_default :: "int option \<Rightarrow> int \<Rightarrow> int" where
  "or_default x d = (case x of None \<Rightarrow> d | Some n \<Rightarrow> if n = 0 then d else n)"

text \<open>\<open>Array.prototype.join\<close>.\<close>

fun js_join :: "jsstring \<Rightarrow> jsstring list \<Rightarrow> jsstring" where
  "js_join sep [] = []"
| "js_join sep [x] = x"
| "js_join sep (x # y # ys) = x @ sep @ js_join sep (y # ys)"

text \<open>\<open>part[i]\<close> as \<open>join\<close> reads it: an index past the end is undefined, joined as the empty string.\<close>

definition at_index :: "jsstring list \<Rightarrow> nat \<Rightarrow> jsstring" where
  "at_index part i = (if i < length part then part ! i else [])"

text \<open>\<open>s.split('\n')\<close>.\<close>

fun split_lines :: "jsstring \<Rightarrow> jsstring list" where
  "split_lines [] = [[]]"
| "split_lines (c # cs) =
     (if c = NL then [] # split_lines cs
      else (case split_lines cs of l # ls \<Rightarrow> (c # l) # ls | [] \<Rightarrow> [[c]]))"

text \<open>\<open>String(n)\<close> of an integer: its decimal digits, with a minus sign when negative.\<close>

fun digits :: "nat \<Rightarrow> jsstring" where
  "digits n = (if n < 10 then [of_nat (48 + n)] else digits (n div 10) @ [of_nat (48 + n mod 10)])"

definition String_of :: "int \<Rightarrow> jsstring" where
  "String_of n = (if n < 0 then 45 # digits (nat (- n)) else digits (nat n))"

text \<open>\<open>s.padStart(2, '0')\<close>.\<close>

definition padStart2 :: "jsstring \<Rightarrow> jsstring" where
  "padStart2 s = replicate (2 - length s) 48 @ s"

section \<open>The glyph table\<close>

definition GLYPH_0 :: "jsstring list" where
  "GLYPH_0 = [[SP,FB,FB,FB,SP], [FB,SP,SP,SP,FB], [FB,SP,FB,SP,FB], [FB,SP,SP,SP,FB], [SP,FB,FB,FB,SP]]"
definition GLYPH_1 :: "jsstring list" where
  "GLYPH_1 = [[SP,SP,FB,SP,SP], [SP,FB,FB,SP,SP], [SP,SP,FB,SP,SP], [SP,SP,FB,SP,SP], [SP,FB,FB,FB,SP]]"
definition GLYPH_2 :: "jsstring list" where
  "GLYPH_2 = [[SP,FB,FB,FB,SP], [FB,SP,SP,SP,FB], [SP,SP,SP,FB,SP], [SP,SP,FB,SP,SP], [FB,FB,FB,FB,FB]]"
definition GLYPH_3 :: "jsstring list" where
  "GLYPH_3 = [[FB,FB,FB,FB,SP], [SP,SP,SP,SP,FB], [SP,SP,FB,FB,SP], [SP,SP,SP,SP,FB], [FB,FB,FB,FB,SP]]"
definition GLYPH_4 :: "jsstring list" where
  "GLYPH_4 = [[FB,SP,SP,SP,FB], [FB,SP,SP,SP,FB], [FB,FB,FB,FB,FB], [SP,SP,SP,SP,FB], [SP,SP,SP,SP,FB]]"
definition GLYPH_5 :: "jsstring list" where
  "GLYPH_5 = [[FB,FB,FB,FB,FB], [FB,SP,SP,SP,SP], [FB,FB,FB,FB,SP], [SP,SP,SP,SP,FB], [FB,FB,FB,FB,SP]]"
definition GLYPH_6 :: "jsstring list" where
  "GLYPH_6 = [[SP,FB,FB,FB,SP], [FB,SP,SP,SP,SP], [FB,FB,FB,FB,SP], [FB,SP,SP,SP,FB], [SP,FB,FB,FB,SP]]"
definition GLYPH_7 :: "jsstring list" where
  "GLYPH_7 = [[FB,FB,FB,FB,FB], [SP,SP,SP,SP,FB], [SP,SP,SP,FB,SP], [SP,SP,FB,SP,SP], [SP,SP,FB,SP,SP]]"
definition GLYPH_8 :: "jsstring list" where
  "GLYPH_8 = [[SP,FB,FB,FB,SP], [FB,SP,SP,SP,FB], [SP,FB,FB,FB,SP], [FB,SP,SP,SP,FB], [SP,FB,FB,FB,SP]]"
definition GLYPH_9 :: "jsstring list" where
  "GLYPH_9 = [[SP,FB,FB,FB,SP], [FB,SP,SP,SP,FB], [SP,FB,FB,FB,FB], [SP,SP,SP,SP,FB], [SP,FB,FB,FB,SP]]"
definition GLYPH_COLON :: "jsstring list" where
  "GLYPH_COLON = [[SP,SP,SP,SP,SP], [SP,SP,FB,SP,SP], [SP,SP,SP,SP,SP], [SP,SP,FB,SP,SP], [SP,SP,SP,SP,SP]]"

text \<open>
  \<open>ASCII_NUMBERS\<close> is an object literal with the eleven keys \<open>'0'\<close> .. \<open>'9'\<close> and \<open>':'\<close>
  (code units 48 .. 57 and 58). A property read with any other key gives undefined
  (\<open>None\<close>): the keys the program reads are one code point long, and no inherited
  property of an object has such a name.
\<close>

definition ASCII_NUMBERS_entries :: "(jsstring \<times> jsstring list) list" where
  "ASCII_NUMBERS_entries =
     [([48], GLYPH_0), ([49], GLYPH_1), ([50], GLYPH_2), ([51], GLYPH_3), ([52], GLYPH_4),
      ([53], GLYPH_5), ([54], GLYPH_6), ([55], GLYPH_7), ([56], GLYPH_8), ([57], GLYPH_9),
      ([58], GLYPH_COLON)]"

definition ASCII_NUMBERS :: "jsstring \<Rightarrow> jsstring list option" where
  "ASCII_NUMBERS = map_of ASCII_NUMBERS_entries"

section \<open>The layout engine\<close>

text \<open>
  \<open>centerContent(content, terminalWidth)\<close>: the content is a string, split at newlines,
  or an array of lines. Each line is padded on the left with
  \<open>max(0, floor((terminalWidth - line.length) / 2))\<close> spaces; the count is never negative, so
  this \<open>repeat\<close> cannot throw.
\<close>

datatype content = Str jsstring | Arr "jsstring list"

definition centerLine :: "int \<Rightarrow> jsstring \<Rightarrow> jsstring" where
  "centerLine terminalWidth line =
     replicate (nat (max 0 ((terminalWidth - int (length line)) div 2))) SP @ line"

definition centerContent :: "content \<Rightarrow> int \<Rightarrow> jsstring" where
  "centerContent content terminalWidth =
     (let lines = (case content of Arr ls \<Rightarrow> ls | Str s \<Rightarrow> split_lines s)
      in js_join [NL] (map (centerLine terminalWidth) lines))"

text \<open>
  \<open>scaleAsciiCharacter(charArt, scale)\<close>: a scale of at most 1 returns the art as it is;
  otherwise every code unit of a row is repeated \<open>scale\<close> times and the row pushed
  \<open>scale\<close> times.
\<close>

definition scaleAsciiCharacter :: "jsstring list \<Rightarrow> int \<Rightarrow> jsstring list" where
  "scaleAsciiCharacter charArt scale =
     (if scale \<le> 1 then charArt
      else concat (map (\<lambda>row. replicate (nat scale)
                                  (concat (map (\<lambda>char. replicate (nat scale) char) row)))
                       charArt))"

text \<open>\<open>ASCII_NUMBERS[char] || ASCII_NUMBERS[':']\<close>.\<close>

definition baseArt :: "16 word \<Rightarrow> jsstring list" where
  "baseArt char = (case ASCII_NUMBERS [char] of Some art \<Rightarrow> art | None \<Rightarrow> GLYPH_COLON)"

text \<open>
  \<open>generateScaledTimerRows(timeString, scale)\<close>. Reading \<open>scaledArtParts[0].length\<close> of an
  empty array throws a TypeError; \<open>' '.repeat(scale * 2)\<close> throws a RangeError for a
  negative scale.
\<close>

definition generateScaledTimerRows :: "jsstring \<Rightarrow> int \<Rightarrow> js_error + jsstring list" where
  "generateScaledTimerRows timeString scale =
     (let scaledArtParts = map (\<lambda>char. scaleAsciiCharacter (baseArt char) scale) timeString
      in case scaledArtParts of
           [] \<Rightarrow> Inl TypeError
         | part0 # _ \<Rightarrow>
             (let scaledCharHeight = length part0
              in case js_repeat [SP] (scale * 2) of
                   Inl e \<Rightarrow> Inl e
                 | Inr scaledSpace \<Rightarrow>
                     Inr (map (\<lambda>i. js_join scaledSpace (map (\<lambda>part. at_index part i) scaledArtParts))
                              [0..<scaledCharHeight])))"

text \<open>
  The sizes \<open>drawDisplay\<close> derives from the terminal: \<open>process.stdout.columns || 80\<close>,
  \<open>process.stdout.rows || 24\<close>, the bar width and the digit scale. Terminal sizes are
  small integers, so \<open>Math.floor\<close> of a quotient is integer division rounding down.
\<close>

record viewport =
  columns :: "int option"
  rows :: "int option"

definition terminalWidth :: "viewport \<Rightarrow> int" where
  "terminalWidth vp = or_default (columns vp) 80"

definition terminalHeight :: "viewport \<Rightarrow> int" where
  "terminalHeight vp = or_default (rows vp) 24"

definition barMargin :: int where
  "barMargin = 4"

definition barWidth :: "viewport \<Rightarrow> int" where
  "barWidth vp = max 10 (terminalWidth vp - (barMargin * 2) - 2)"

definition filledWidth :: "viewport \<Rightarrow> rat \<Rightarrow> int" where
  "filledWidth vp progress = js_round (of_int (barWidth vp) * progress)"

definition emptyWidth :: "viewport \<Rightarrow> rat \<Rightarrow> int" where
  "emptyWidth vp progress = barWidth vp - filledWidth vp progress"

definition barContent :: "viewport \<Rightarrow> rat \<Rightarrow> js_error + jsstring" where
  "barContent vp progress =
     (case js_repeat [FB] (filledWidth vp progress) of
        Inl e \<Rightarrow> Inl e
      | Inr filledBar \<Rightarrow>
          (case js_repeat [SH] (emptyWidth vp progress) of
             Inl e \<Rightarrow> Inl e
           | Inr emptyBar \<Rightarrow> Inr ([91] @ filledBar @ emptyBar @ [93])))"

definition verticalScale :: "viewport \<Rightarrow> int" where
  "verticalScale vp = (terminalHeight vp - 4) div 5"

definition horizontalScale :: "viewport \<Rightarrow> int" where
  "horizontalScale vp = terminalWidth vp div 35"

definition scale_of :: "viewport \<Rightarrow> int" where
  "scale_of vp = max 1 (min (verticalScale vp) (horizontalScale vp))"

definition timeString :: "int \<Rightarrow> int \<Rightarrow> jsstring" where
  "timeString minutes seconds =
     padStart2 (String_of minutes) @ [58] @ padStart2 (String_of seconds)"

text \<open>The frame \<open>drawDisplay\<close> composes: \<open>`${centeredBar}\n\n${centeredTimer}`\<close>.\<close>

definition fullDisplay :: "viewport \<Rightarrow> rat \<Rightarrow> int \<Rightarrow> int \<Rightarrow> js_error + jsstring" where
  "fullDisplay vp progress minutes seconds =
     (case barContent vp progress of
        Inl e \<Rightarrow> Inl e
      | Inr bar \<Rightarrow>
          (let centeredBar = centerContent (Str bar) (terminalWidth vp)
           in case generateScaledTimerRows (timeString minutes seconds) (scale_of vp) of
                Inl e \<Rightarrow> Inl e
              | Inr timerRows \<Rightarrow>
                  (let centeredTimer = centerContent (Arr timerRows) (terminalWidth vp)
                   in Inr (centeredBar @ [NL, NL] @ centeredTimer))))"

definition CLEAR_SCREEN :: jsstring where
  "CLEAR_SCREEN = ESC # ascii ''[2J'' @ ESC # ascii ''[0f''"

text \<open>
  \<open>drawDisplay(progress, minutes, seconds)\<close>: the writes it makes to the terminal, and
  the exception it ends with, if any. The screen is cleared before the frame is
  computed, so a throw leaves the clear written and no frame.
\<close>

definition drawDisplay :: "viewport \<Rightarrow> rat \<Rightarrow> int \<Rightarrow> int \<Rightarrow> jsstring list \<times> js_error option" where
  "drawDisplay vp progress minutes seconds =
     (case fullDisplay vp progress minutes seconds of
        Inl e \<Rightarrow> ([CLEAR_SCREEN], Some e)
      | Inr frame \<Rightarrow> ([CLEAR_SCREEN, frame], None))"

section \<open>The countdown driver\<close>

text \<open>
  The closure variables of \<open>main\<close> and what the process has registered with the runtime,
  as one record. \<open>screen\<close> is the terminal size that \<open>process.stdout\<close> reports at the
  moment; \<open>stdout\<close> is everything written to standard output, oldest first; \<open>drawn\<close> logs
  the arguments of every \<open>drawDisplay\<close> call. Second counts are far below \<open>2^53\<close>, where
  arithmetic on doubles is exact, so they are integers here.

  \<open>status\<close>: the process is alive, has called \<open>process.exit(code)\<close>, was terminated
  by SIGINT with no listener installed (the runtime's default action), or died of an
  exception no one caught.
\<close>

datatype status = Alive | Exited int | Killed | Crashed js_error

record timer =
  totalSeconds :: int
  timeLeftInSeconds :: int
  started :: bool
  sigint_listener :: bool
  resize_listener :: bool
  timerInterval :: bool
  screen :: viewport
  stdout :: "jsstring list"
  drawn :: "(rat \<times> int \<times> int) list"
  status :: status

definition HIDE_CURSOR :: jsstring where
  "HIDE_CURSOR = ESC # ascii ''[?25l''"

definition SHOW_CURSOR :: jsstring where
  "SHOW_CURSOR = ESC # ascii ''[?25h''"

definition CANCELLED_MESSAGE :: jsstring where
  "CANCELLED_MESSAGE = [NL, NL] @ ascii ''Timer cancelled. Goodbye!'' @ [NL]"

definition TIMES_UP_MESSAGE :: jsstring where
  "TIMES_UP_MESSAGE = [NL, NL] @ ascii ''Time'' @ [39] @ ascii ''s up! Take a break.'' @ [BEL, NL]"

definition invalid_duration_line :: "jsstring \<Rightarrow> jsstring" where
  "invalid_duration_line arg =
     ascii ''Invalid duration: '' @ [34] @ arg @ [34] @ ascii ''. Using default of 25 minutes.'' @ [NL]"

definition starting_line :: "int \<Rightarrow> jsstring" where
  "starting_line durationMinutes =
     ascii ''Starting Pomodoro timer for '' @ String_of durationMinutes
       @ ascii '' minutes. Press Ctrl+C to exit.'' @ [NL]"

text \<open>
  The synchronous part of \<open>main\<close>, up to the \<open>setTimeout\<close> call. \<open>arg0\<close> is the first
  command-line argument if there is one and \<open>parsed\<close> what \<open>parseInt(args[0], 10)\<close> made
  of it (\<open>None\<close> for NaN). Nothing is registered yet: the interrupt listener, the resize
  listener and the interval are all set up inside the timeout callback.
\<close>

definition durationMinutes :: "int option \<Rightarrow> int" where
  "durationMinutes parsed = (case parsed of None \<Rightarrow> 25 | Some d \<Rightarrow> if d \<le> 0 then 25 else d)"

definition main :: "jsstring option \<Rightarrow> int option \<Rightarrow> viewport \<Rightarrow> timer" where
  "main arg0 parsed vp =
     (let invalid = (case parsed of None \<Rightarrow> True | Some d \<Rightarrow> d \<le> 0);
          warning = (case arg0 of Some a \<Rightarrow> if invalid then [invalid_duration_line a] else []
                                 | None \<Rightarrow> [])
      in \<lparr>totalSeconds = durationMinutes parsed * 60,
          timeLeftInSeconds = durationMinutes parsed * 60,
          started = False, sigint_listener = False, resize_listener = False,
          timerInterval = False, screen = vp,
          stdout = warning @ [starting_line (durationMinutes parsed)],
          drawn = [], status = Alive\<rparr>)"

text \<open>
  \<open>redraw\<close>: \<open>Math.floor(timeLeftInSeconds / 60)\<close> is division rounding down, \<open>%\<close> is the
  remainder with the sign of the dividend. An exception thrown by \<open>drawDisplay\<close> is not
  caught anywhere, so it ends the process.
\<close>

definition progress_of :: "timer \<Rightarrow> rat" where
  "progress_of s =
     (if totalSeconds s > 0
      then of_int (totalSeconds s - timeLeftInSeconds s) / of_int (totalSeconds s) else 0)"

definition redraw :: "timer \<Rightarrow> timer" where
  "redraw s =
     (let minutes = timeLeftInSeconds s div 60;
          seconds = timeLeftInSeconds s smod 60;
          progress = progress_of s;
          (writes, thrown) = drawDisplay (screen s) progress minutes seconds
      in s\<lparr>stdout := stdout s @ writes,
           drawn := drawn s @ [(progress, minutes, seconds)],
           status := (case thrown of None \<Rightarrow> status s | Some e \<Rightarrow> Crashed e)\<rparr>)"

text \<open>The callback given to \<open>setTimeout\<close>.\<close>

definition timeout_callback :: "timer \<Rightarrow> timer" where
  "timeout_callback s =
     redraw (s\<lparr>stdout := stdout s @ [HIDE_CURSOR],
               sigint_listener := True, resize_listener := True, timerInterval := True\<rparr>)"

text \<open>The SIGINT listener. It ends with \<open>process.exit(0)\<close>.\<close>

definition sigint_callback :: "timer \<Rightarrow> timer" where
  "sigint_callback s =
     s\<lparr>stdout := stdout s @ [SHOW_CURSOR, CANCELLED_MESSAGE], status := Exited 0\<rparr>"

text \<open>
  The callback given to \<open>setInterval\<close>. The test for zero comes first; \<open>process.exit(0)\<close>
  does not return, so the decrement below it runs only when the test fails.
\<close>

definition interval_callback :: "timer \<Rightarrow> timer" where
  "interval_callback s =
     (if timeLeftInSeconds s \<le> 0
      then s\<lparr>timerInterval := False, resize_listener := False,
             stdout := stdout s @ [SHOW_CURSOR, TIMES_UP_MESSAGE], status := Exited 0\<rparr>
      else redraw (s\<lparr>timeLeftInSeconds := timeLeftInSeconds s - 1\<rparr>))"

text \<open>
  The events the event loop delivers, one callback at a time. A process that has ended
  runs nothing more. The timeout fires once; a tick runs the interval callback if the
  interval is set; a resize changes what the terminal reports and runs \<open>redraw\<close> if the
  listener is registered; an interrupt runs the listener if one is installed and
  otherwise terminates the process.
\<close>

datatype event = Timeout | Tick | Resize "int option" "int option" | Interrupt

definition step :: "timer \<Rightarrow> event \<Rightarrow> timer" where
  "step s e =
     (if status s \<noteq> Alive then s
      else case e of
        Timeout \<Rightarrow> if started s then s else timeout_callback (s\<lparr>started := True\<rparr>)
      | Tick \<Rightarrow> if timerInterval s then interval_callback s else s
      | Resize c r \<Rightarrow>
          (let s' = s\<lparr>screen := \<lparr>columns = c, rows = r\<rparr>\<rparr>
           in if resize_listener s' then redraw s' else s')
      | Interrupt \<Rightarrow> if sigint_listener s then sigint_callback s else s\<lparr>status := Killed\<rparr>)"

fun run :: "timer \<Rightarrow> event list \<Rightarrow> timer" where
  "run s [] = s"
| "run s (e # es) = run (step s e) es"

definition ticks :: "nat \<Rightarrow> timer \<Rightarrow> timer" where
  "ticks n s = run s (replicate n Tick)"

section \<open>The program of index.js\<close>

text \<open>
  \<open>index.js\<close> holds an earlier form of the same program: a bar of fixed width 40, digits
  at their base size, no resize listener, and an interval callback that decrements and
  draws first and tests for zero last. Its \<open>for (const char of timeString)\<close> walks the
  string by code points, so a surrogate pair arrives as one two-unit string.
\<close>

fun code_points :: "jsstring \<Rightarrow> jsstring list" where
  "code_points [] = []"
| "code_points [c] = [[c]]"
| "code_points (c # d # cs) =
     (if 55296 \<le> c \<and> c \<le> 56319 \<and> 56320 \<le> d \<and> d \<le> 57343
      then [c, d] # code_points cs
      else [c] # code_points (d # cs))"

text \<open>\<open>ascii_char[i] + ' '\<close>; a missing row would be concatenated as the text "undefined".\<close>

definition row_and_space :: "jsstring list \<Rightarrow> nat \<Rightarrow> jsstring" where
  "row_and_space ascii_char i =
     (if i < length ascii_char then ascii_char ! i else ascii ''undefined'') @ [SP]"

definition charHeight :: nat where
  "charHeight = length GLYPH_0"

definition add_char :: "jsstring list \<Rightarrow> jsstring \<Rightarrow> jsstring list" where
  "add_char timerRows char =
     (case ASCII_NUMBERS char of
        None \<Rightarrow> timerRows
      | Some ascii_char \<Rightarrow>
          map (\<lambda>i. at_index timerRows i @ row_and_space ascii_char i) [0..<charHeight])"

definition timerRows_idx :: "jsstring \<Rightarrow> jsstring list" where
  "timerRows_idx ts = foldl add_char (replicate charHeight []) (code_points ts)"

definition fullDisplay_idx :: "rat \<Rightarrow> int \<Rightarrow> int \<Rightarrow> js_error + jsstring" where
  "fullDisplay_idx progress minutes seconds =
     (let barWidth = 40;
          filledWidth = js_round (of_int barWidth * progress);
          emptyWidth = barWidth - filledWidth
      in case js_repeat [FB] filledWidth of
           Inl e \<Rightarrow> Inl e
         | Inr filledBar \<Rightarrow>
             (case js_repeat [SH] emptyWidth of
                Inl e \<Rightarrow> Inl e
              | Inr emptyBar \<Rightarrow>
                  (let progressBarString = [91] @ filledBar @ emptyBar @ [93] @ [NL, NL];
                       largeTimerString = js_join [NL] (timerRows_idx (timeString minutes seconds))
                   in Inr (progressBarString @ largeTimerString))))"

definition drawDisplay_idx :: "rat \<Rightarrow> int \<Rightarrow> int \<Rightarrow> jsstring list \<times> js_error option" where
  "drawDisplay_idx progress minutes seconds =
     (case fullDisplay_idx progress minutes seconds of
        Inl e \<Rightarrow> ([CLEAR_SCREEN], Some e)
      | Inr frame \<Rightarrow> ([CLEAR_SCREEN, frame], None))"

definition draw_idx :: "rat \<Rightarrow> int \<Rightarrow> int \<Rightarrow> timer \<Rightarrow> timer" where
  "draw_idx progress minutes seconds s =
     (let (writes, thrown) = drawDisplay_idx progress minutes seconds
      in s\<lparr>stdout := stdout s @ writes,
           drawn := drawn s @ [(progress, minutes, seconds)],
           status := (case thrown of None \<Rightarrow> status s | Some e \<Rightarrow> Crashed e)\<rparr>)"

text \<open>
  The initial draw is \<open>drawDisplay(0, durationMinutes, 0)\<close>; \<open>totalSeconds\<close> is
  \<open>durationMinutes * 60\<close>, so the minutes passed are \<open>totalSeconds div 60\<close>.
\<close>

definition timeout_callback_idx :: "timer \<Rightarrow> timer" where
  "timeout_callback_idx s =
     draw_idx 0 (totalSeconds s div 60) 0
       (s\<lparr>stdout := stdout s @ [HIDE_CURSOR], sigint_listener := True, timerInterval := True\<rparr>)"

text \<open>
  The interval callback of \<open>index.js\<close>. \<open>totalSeconds\<close> is a positive multiple of 60
  there, so the quotient is never a division by zero.
\<close>

definition interval_callback_idx :: "timer \<Rightarrow> timer" where
  "interval_callback_idx s =
     (let s1 = s\<lparr>timeLeftInSeconds := timeLeftInSeconds s - 1\<rparr>;
          minutes = timeLeftInSeconds s1 div 60;
          seconds = timeLeftInSeconds s1 smod 60;
          progress = of_int (totalSeconds s1 - timeLeftInSeconds s1) / of_int (totalSeconds s1);
          s2 = draw_idx progress minutes seconds s1
      in if status s2 \<noteq> Alive then s2
         else if timeLeftInSeconds s2 \<le> 0
         then s2\<lparr>timerInterval := False,
                 stdout := stdout s2 @ [SHOW_CURSOR, TIMES_UP_MESSAGE], status := Exited 0\<rparr>
         else s2)"

definition step_idx :: "timer \<Rightarrow> event \<Rightarrow> timer" where
  "step_idx s e =
     (if status s \<noteq> Alive then s
      else case e of
        Timeout \<Rightarrow> if started s then s else timeout_callback_idx (s\<lparr>started := True\<rparr>)
      | Tick \<Rightarrow> if timerInterval s then interval_callback_idx s else s
      | Resize c r \<Rightarrow> s\<lparr>screen := \<lparr>columns = c, rows = r\<rparr>\<rparr>
      | Interrupt \<Rightarrow> if sigint_listener s then sigint_callback s else s\<lparr>status := Killed\<rparr>)"

fun run_idx :: "timer \<Rightarrow> event list \<Rightarrow> timer" where
  "run_idx s [] = s"
| "run_idx s (e # es) = run_idx (step_idx s e) es"

text \<open>A one-minute timer on an 80 by 24 terminal, once the timeout callback has run.\<close>

definition vp_80x24 :: viewport where
  "vp_80x24 = \<lparr>columns = Some 80, rows = Some 24\<rparr>"

definition one_minute_timer :: timer where
  "one_minute_timer = step (main (Some [49]) (Some 1) vp_80x24) Timeout"

definition one_minute_timer_idx :: timer where
  "one_minute_timer_idx = step_idx (main (Some [49]) (Some 1) vp_80x24) Timeout"

section \<open>Notions used to state the properties\<close>

text \<open>A glyph of five rows, each five code units wide.\<close>

definition five_by_five :: "jsstring list \<Rightarrow> bool" where
  "five_by_five art \<longleftrightarrow> length art = 5 \<and> list_all (\<lambda>row. length row = 5) art"

text \<open>A code unit as the digit block shows it: one with no glyph is shown as the colon.\<close>

definition or_colon :: "16 word \<Rightarrow> 16 word" where
  "or_colon char = (if ASCII_NUMBERS [char] = None then 58 else char)"

text \<open>
  What holds of a logged \<open>drawDisplay\<close> call of a timer of \<open>T\<close> seconds: minutes and
  seconds are those of a remaining time \<open>60 * minutes + seconds\<close> between 0 and \<open>T\<close>, with
  seconds in \<open>0 .. 59\<close>, and the progress is the elapsed share of \<open>T\<close>.
\<close>

definition drawn_ok :: "int \<Rightarrow> rat \<times> int \<times> int \<Rightarrow> bool" where
  "drawn_ok T call =
     (case call of (progress, minutes, seconds) \<Rightarrow>
        0 \<le> minutes \<and> 0 \<le> seconds \<and> seconds \<le> 59 \<and> 60 * minutes + seconds \<le> T
        \<and> progress = of_int (T - (60 * minutes + seconds)) / of_int T
        \<and> 0 \<le> progress \<and> progress \<le> 1)"

text \<open>
  The invariant of the driver: the remaining time stays between 0 and the total; no
  exception has ended the process; before the timeout callback nothing is registered
  and nothing drawn; after it, a live process has its three registrations, and the last
  frame drawn is the one of the current remaining time.
\<close>

definition driver_inv :: "timer \<Rightarrow> bool" where
  "driver_inv s \<longleftrightarrow>
     0 < totalSeconds s \<and> 0 \<le> timeLeftInSeconds s \<and> timeLeftInSeconds s \<le> totalSeconds s
     \<and> list_all (drawn_ok (totalSeconds s)) (drawn s)
     \<and> (status s = Alive \<or> status s = Exited 0 \<or> status s = Killed)
     \<and> (if started s
         then drawn s \<noteq> []
            \<and> last (drawn s) = (progress_of s, timeLeftInSeconds s div 60, timeLeftInSeconds s smod 60)
            \<and> (status s \<noteq> Alive \<or> (sigint_listener s \<and> resize_listener s \<and> timerInterval s))
         else \<not> sigint_listener s \<and> \<not> resize_listener s \<and> \<not> timerInterval s
            \<and> timeLeftInSeconds s = totalSeconds s \<and> drawn s = [])"

section \<open>Properties of the layout engine\<close>

lemma js_round_bounds:
  assumes "0 \<le> x" and "x \<le> of_int w"
  shows "0 \<le> js_round x" and "js_round x \<le> w"
proof -
  have "(0::rat) \<le> x + 1 / 2" using assms(1) by simp
  then show "0 \<le> js_round x" unfolding js_round_def by simp
  have "x + 1 / 2 < of_int (w + 1)" using assms(2) by simp
  then have "\<lfloor>x + 1 / 2\<rfloor> < w + 1" by (simp only: floor_less_iff)
  then show "js_round x \<le> w" unfolding js_round_def by simp
qed


lemma barWidth_ge_10: "10 \<le> barWidth vp"
  by (simp add: barWidth_def)

lemma filledWidth_bounds:
  assumes "0 \<le> p" and "p \<le> 1"
  shows "0 \<le> filledWidth vp p" and "filledWidth vp p \<le> barWidth vp"
proof -
  have w: "(0::rat) \<le> of_int (barWidth vp)" using barWidth_ge_10 [of vp] by simp
  have lo: "0 \<le> of_int (barWidth vp) * p" using w assms(1) by simp
  have hi: "of_int (barWidth vp) * p \<le> of_int (barWidth vp)"
    using w assms(2) by (simp add: mult_left_le)
  show "0 \<le> filledWidth vp p"
    unfolding filledWidth_def using js_round_bounds(1) [OF lo hi] .
  show "filledWidth vp p \<le> barWidth vp"
    unfolding filledWidth_def using js_round_bounds(2) [OF lo hi] .
qed



lemma js_repeat_unit:
  "js_repeat [c] n = (if n < 0 then Inl RangeError else Inr (replicate (nat n) c))"
proof -
  have "concat (replicate k [c]) = replicate k c" for k
    by (induction k) simp_all
  then show ?thesis by (simp add: js_repeat_def)
qed

lemma barContent_eq:
  "barContent vp p =
     (if 0 \<le> filledWidth vp p \<and> filledWidth vp p \<le> barWidth vp
      then Inr ([91] @ replicate (nat (filledWidth vp p)) FB
                  @ replicate (nat (barWidth vp - filledWidth vp p)) SH @ [93])
      else Inl RangeError)"
  by (simp add: barContent_def js_repeat_unit emptyWidth_def)

lemma barContent_in_range:
  assumes "0 \<le> p" and "p \<le> 1"
  shows "barContent vp p =
           Inr ([91] @ replicate (nat (filledWidth vp p)) FB
                  @ replicate (nat (emptyWidth vp p)) SH @ [93])"
  using filledWidth_bounds [OF assms, of vp] by (simp add: barContent_eq emptyWidth_def)







lemma scale_of_ge_1: "1 \<le> scale_of vp"
  by (simp add: scale_of_def)

text \<open>
  C6. For a terminal that reports \<open>columns \<ge> 1\<close> and \<open>rows \<ge> 1\<close>, the digit scale is
  \<open>max(1, min(floor((rows - 4) / 5), floor(columns / 35)))\<close>, so it is at least 1; a
  1 by 1 terminal gives scale 1.
\<close>

theorem scale_formula_at_least_one:
  assumes "columns vp = Some c" and "rows vp = Some r" and "1 \<le> c" and "1 \<le> r"
  shows "scale_of vp = max 1 (min ((r - 4) div 5) (c div 35)) \<and> 1 \<le> scale_of vp"
  using assms
  by (simp add: scale_of_def verticalScale_def horizontalScale_def terminalHeight_def
        terminalWidth_def or_default_def)

theorem scale_formula_at_least_one_witness:
  "columns \<lparr>columns = Some 1, rows = Some 1\<rparr> = Some 1
     \<and> rows \<lparr>columns = Some 1, rows = Some 1\<rparr> = Some 1 \<and> (1::int) \<le> 1
     \<and> scale_of \<lparr>columns = Some 1, rows = Some 1\<rparr> = 1"
  using scale_formula_at_least_one [of "\<lparr>columns = Some 1, rows = Some 1\<rparr>" 1 1]
  by simp

lemmas GLYPH_defs = GLYPH_0_def GLYPH_1_def GLYPH_2_def GLYPH_3_def GLYPH_4_def GLYPH_5_def
  GLYPH_6_def GLYPH_7_def GLYPH_8_def GLYPH_9_def GLYPH_COLON_def

lemma ASCII_NUMBERS_five_by_five:
  assumes "ASCII_NUMBERS k = Some art"
  shows "five_by_five art"
proof -
  have "(k, art) \<in> set ASCII_NUMBERS_entries"
    using assms unfolding ASCII_NUMBERS_def by (rule map_of_SomeD)
  then show ?thesis
    unfolding ASCII_NUMBERS_entries_def five_by_five_def
    by (auto simp add: GLYPH_defs)
qed

lemma GLYPH_COLON_five_by_five: "five_by_five GLYPH_COLON"
  by (simp add: five_by_five_def GLYPH_COLON_def)

lemma baseArt_five_by_five: "five_by_five (baseArt c)"
  by (simp add: baseArt_def ASCII_NUMBERS_five_by_five GLYPH_COLON_five_by_five
        split: option.split)

lemma length_concat_map_replicate:
  "length (concat (map (\<lambda>x. replicate n (f x)) xs)) = n * length xs"
  by (induction xs) simp_all

lemma nth_concat_map_replicate:
  assumes "i < n * length xs"
  shows "concat (map (\<lambda>x. replicate n (f x)) xs) ! i = f (xs ! (i div n))"
  using assms
proof (induction xs arbitrary: i)
  case Nil
  then show ?case by simp
next
  case (Cons x xs)
  have n: "0 < n" using Cons.prems by (cases n) simp_all
  show ?case
  proof (cases "i < n")
    case True
    then show ?thesis by (simp add: nth_append)
  next
    case False
    then have "i - n < n * length xs" using Cons.prems by simp
    then have "concat (map (\<lambda>x. replicate n (f x)) xs) ! (i - n) = f (xs ! ((i - n) div n))"
      by (rule Cons.IH)
    moreover have "i div n = Suc ((i - n) div n)" using False n
      by (simp add: le_div_geq)
    ultimately show ?thesis using False
      by (simp add: nth_append)
  qed
qed

lemma concat_map_replicate_1: "concat (map (replicate (Suc 0)) xs) = xs"
  by (induction xs) simp_all

lemma scaleAsciiCharacter_length:
  assumes "1 \<le> s" and "five_by_five art"
  shows "length (scaleAsciiCharacter art s) = 5 * nat s"
  using assms
  by (auto simp add: scaleAsciiCharacter_def five_by_five_def length_concat_map_replicate)

lemma scaleAsciiCharacter_nth:
  assumes "1 \<le> s" and "five_by_five art" and "i < 5 * nat s"
  shows "scaleAsciiCharacter art s ! i = concat (map (replicate (nat s)) (art ! (i div nat s)))"
proof (cases "s = 1")
  case True
  then show ?thesis
    using assms by (simp add: scaleAsciiCharacter_def concat_map_replicate_1)
next
  case False
  then have "1 < s" using assms(1) by simp
  moreover have "i < nat s * length art" using assms by (simp add: five_by_five_def mult.commute)
  ultimately show ?thesis
    by (simp add: scaleAsciiCharacter_def nth_concat_map_replicate)
qed

lemma scaleAsciiCharacter_row_length:
  assumes "1 \<le> s" and "five_by_five art" and "i < 5 * nat s"
  shows "length (scaleAsciiCharacter art s ! i) = 5 * nat s"
proof -
  have "i div nat s < 5" using assms by (simp add: less_mult_imp_div_less mult.commute)
  then have "length (art ! (i div nat s)) = 5"
    using assms(2) by (simp add: five_by_five_def list_all_length)
  moreover have "length (concat (map (replicate n) row)) = n * length row" for n and row :: jsstring
    using length_concat_map_replicate [of n "\<lambda>x. x" row] by simp
  ultimately show ?thesis
    using scaleAsciiCharacter_nth [OF assms] by (simp add: mult.commute)
qed

lemma scaleAsciiCharacter_cell:
  assumes "1 \<le> s" and "five_by_five art" and "i < 5 * nat s" and "j < 5 * nat s"
  shows "scaleAsciiCharacter art s ! i ! j = art ! (i div nat s) ! (j div nat s)"
proof -
  have "i div nat s < 5" using assms by (simp add: less_mult_imp_div_less mult.commute)
  then have "length (art ! (i div nat s)) = 5"
    using assms(2) by (simp add: five_by_five_def list_all_length)
  then have "j < nat s * length (art ! (i div nat s))" using assms(4) by (simp add: mult.commute)
  then have "concat (map (\<lambda>x. replicate (nat s) x) (art ! (i div nat s))) ! j
               = (art ! (i div nat s)) ! (j div nat s)"
    by (rule nth_concat_map_replicate)
  then show ?thesis using scaleAsciiCharacter_nth [OF assms(1-3)] by simp
qed

lemma length_js_join:
  "length (js_join sep xs) = sum_list (map length xs) + length sep * (length xs - 1)"
  by (induction sep xs rule: js_join.induct) simp_all

lemma generateScaledTimerRows_eq:
  assumes "ts \<noteq> []" and "1 \<le> s"
  shows "generateScaledTimerRows ts s =
           Inr (map (\<lambda>i. js_join (replicate (2 * nat s) SP)
                            (map (\<lambda>c. scaleAsciiCharacter (baseArt c) s ! i) ts))
                    [0..<5 * nat s])"
proof -
  obtain c cs where ts: "ts = c # cs" using assms(1) by (cases ts) auto
  have h: "length (scaleAsciiCharacter (baseArt c) s) = 5 * nat s" for c
    using assms(2) baseArt_five_by_five by (rule scaleAsciiCharacter_length)
  have sp: "js_repeat [SP] (s * 2) = Inr (replicate (2 * nat s) SP)"
    using assms(2) by (simp add: js_repeat_unit nat_mult_distrib)
  have rows: "map (\<lambda>part. at_index part i) (map (\<lambda>char. scaleAsciiCharacter (baseArt char) s) ts)
                = map (\<lambda>c. scaleAsciiCharacter (baseArt c) s ! i) ts"
    if "i < 5 * nat s" for i
    using that by (simp add: at_index_def h)
  have "generateScaledTimerRows ts s =
          Inr (map (\<lambda>i. js_join (replicate (2 * nat s) SP)
                 (map (\<lambda>part. at_index part i)
                    (map (\<lambda>char. scaleAsciiCharacter (baseArt char) s) ts)))
               [0..<5 * nat s])"
    unfolding generateScaledTimerRows_def Let_def sp by (simp add: ts h)
  also have "\<dots> = Inr (map (\<lambda>i. js_join (replicate (2 * nat s) SP)
                            (map (\<lambda>c. scaleAsciiCharacter (baseArt c) s ! i) ts))
                    [0..<5 * nat s])"
    using rows by (simp cong: map_cong)
  finally show ?thesis .
qed

lemma generateScaledTimerRows_total:
  assumes "ts \<noteq> []" and "0 \<le> s"
  shows "\<exists>rows. generateScaledTimerRows ts s = Inr rows"
proof -
  obtain c cs where ts: "ts = c # cs" using assms(1) by (cases ts) auto
  show ?thesis using assms(2)
    by (simp add: generateScaledTimerRows_def ts js_repeat_unit)
qed

lemma generateScaledTimerRows_empty: "generateScaledTimerRows [] s = Inl TypeError"
  by (simp add: generateScaledTimerRows_def)

lemma generateScaledTimerRows_negative:
  assumes "ts \<noteq> []" and "s < 0"
  shows "generateScaledTimerRows ts s = Inl RangeError"
proof -
  obtain c cs where ts: "ts = c # cs" using assms(1) by (cases ts) auto
  show ?thesis using assms(2)
    by (simp add: generateScaledTimerRows_def ts js_repeat_unit)
qed

lemma ASCII_NUMBERS_colon: "ASCII_NUMBERS [58] = Some GLYPH_COLON"
  by (simp add: ASCII_NUMBERS_def ASCII_NUMBERS_entries_def)

lemma baseArt_or_colon: "baseArt (or_colon char) = baseArt char"
  by (simp add: or_colon_def baseArt_def ASCII_NUMBERS_colon)

lemma generateScaledTimerRows_or_colon:
  "generateScaledTimerRows (map or_colon ts) s = generateScaledTimerRows ts s"
  by (simp add: generateScaledTimerRows_def baseArt_or_colon comp_def)

lemma timer_row_length:
  assumes "1 \<le> s" and "i < 5 * nat s"
  shows "length (js_join (replicate (2 * nat s) SP)
                   (map (\<lambda>c. scaleAsciiCharacter (baseArt c) s ! i) ts))
           = 5 * nat s * length ts + 2 * nat s * (length ts - 1)"
proof -
  have "sum_list (map length (map (\<lambda>c. scaleAsciiCharacter (baseArt c) s ! i) ts))
          = 5 * nat s * length ts"
    using scaleAsciiCharacter_row_length [OF assms(1) baseArt_five_by_five assms(2)]
    by (induction ts) simp_all
  then show ?thesis
    by (simp only: length_js_join length_replicate length_map)
qed

lemma timeString_not_empty: "timeString minutes seconds \<noteq> []"
  by (simp add: timeString_def)

lemma fullDisplay_total:
  assumes "0 \<le> p" and "p \<le> 1"
  shows "\<exists>frame. fullDisplay vp p minutes seconds = Inr frame"
proof -
  have "0 \<le> scale_of vp" using scale_of_ge_1 [of vp] by simp
  with timeString_not_empty obtain timerRows
    where "generateScaledTimerRows (timeString minutes seconds) (scale_of vp) = Inr timerRows"
    using generateScaledTimerRows_total by blast
  then show ?thesis
    by (simp add: fullDisplay_def barContent_in_range [OF assms])
qed

lemma drawDisplay_in_range:
  assumes "0 \<le> p" and "p \<le> 1"
  shows "\<exists>frame. drawDisplay vp p minutes seconds = ([CLEAR_SCREEN, frame], None)"
  using fullDisplay_total [OF assms, of vp minutes seconds]
  by (auto simp add: drawDisplay_def)

lemma add_char_unknown: "ASCII_NUMBERS char = None \<Longrightarrow> add_char timerRows char = timerRows"
  by (simp add: add_char_def)

lemma foldl_add_char_known:
  "foldl add_char timerRows chars
     = foldl add_char timerRows (filter (\<lambda>char. ASCII_NUMBERS char \<noteq> None) chars)"
  by (induction chars arbitrary: timerRows) (simp_all add: add_char_unknown)

text \<open>
  C7. For every scale \<open>s \<ge> 1\<close> and every code unit of the time string, the glyph used is
  5 by 5 and its scaled form has \<open>5s\<close> rows of \<open>5s\<close> code units, the cell at row \<open>i\<close>,
  column \<open>j\<close> being the glyph's cell at \<open>(i div s, j div s)\<close>: every cell is repeated \<open>s\<close>
  times across and every row \<open>s\<close> times down. Row \<open>i\<close> of the digit block is row \<open>i\<close> of
  each character's block in turn, joined with \<open>2s\<close> spaces between neighbours; the
  block has \<open>5s\<close> rows, all of the same length \<open>5s * n + 2s * (n - 1)\<close> for \<open>n\<close> characters.
\<close>

theorem scaled_digit_block:
  assumes "1 \<le> s" and "ts \<noteq> []"
  shows "(\<forall>c. five_by_five (baseArt c))
      \<and> (\<forall>c. length (scaleAsciiCharacter (baseArt c) s) = 5 * nat s)
      \<and> (\<forall>c. \<forall>i < 5 * nat s. length (scaleAsciiCharacter (baseArt c) s ! i) = 5 * nat s)
      \<and> (\<forall>c. \<forall>i < 5 * nat s. \<forall>j < 5 * nat s.
            scaleAsciiCharacter (baseArt c) s ! i ! j = baseArt c ! (i div nat s) ! (j div nat s))
      \<and> generateScaledTimerRows ts s =
            Inr (map (\<lambda>i. js_join (replicate (2 * nat s) SP)
                             (map (\<lambda>c. scaleAsciiCharacter (baseArt c) s ! i) ts))
                     [0..<5 * nat s])
      \<and> (\<forall>timerRows. generateScaledTimerRows ts s = Inr timerRows \<longrightarrow>
            length timerRows = 5 * nat s
            \<and> (\<forall>row \<in> set timerRows.
                  length row = 5 * nat s * length ts + 2 * nat s * (length ts - 1)))"
proof -
  note art = baseArt_five_by_five
  have a: "\<forall>c. length (scaleAsciiCharacter (baseArt c) s) = 5 * nat s"
    using scaleAsciiCharacter_length [OF assms(1) art] by blast
  have b: "\<forall>c. \<forall>i < 5 * nat s. length (scaleAsciiCharacter (baseArt c) s ! i) = 5 * nat s"
    using scaleAsciiCharacter_row_length [OF assms(1) art] by blast
  have c: "\<forall>c. \<forall>i < 5 * nat s. \<forall>j < 5 * nat s.
            scaleAsciiCharacter (baseArt c) s ! i ! j = baseArt c ! (i div nat s) ! (j div nat s)"
    using scaleAsciiCharacter_cell [OF assms(1) art] by blast
  note d = generateScaledTimerRows_eq [OF assms(2) assms(1)]
  have e: "length timerRows = 5 * nat s
            \<and> (\<forall>row \<in> set timerRows.
                  length row = 5 * nat s * length ts + 2 * nat s * (length ts - 1))"
    if "generateScaledTimerRows ts s = Inr timerRows" for timerRows
  proof -
    have rows: "timerRows = map (\<lambda>i. js_join (replicate (2 * nat s) SP)
                             (map (\<lambda>c. scaleAsciiCharacter (baseArt c) s ! i) ts))
                     [0..<5 * nat s]"
      using that d by simp
    show ?thesis
      unfolding rows using timer_row_length [OF assms(1), of _ ts] by auto
  qed
  show ?thesis using art a b c d e by blast
qed

theorem scaled_digit_block_witness:
  "(1::int) \<le> 2 \<and> timeString 4 7 \<noteq> []
     \<and> length (scaleAsciiCharacter (baseArt 52) 2) = 10
     \<and> (\<exists>timerRows. generateScaledTimerRows (timeString 4 7) 2 = Inr timerRows
           \<and> length timerRows = 10 \<and> length (timerRows ! 0) = 66)"
proof -
  have h1: "(1::int) \<le> 2" by simp
  have h2: "timeString 4 7 \<noteq> []" by (rule timeString_not_empty)
  have n: "length (timeString 4 7) = 5" by code_simp
  note t = scaled_digit_block [OF h1 h2]
  obtain timerRows where r: "generateScaledTimerRows (timeString 4 7) 2 = Inr timerRows"
    using t by blast
  have l: "length timerRows = 10" using t r by simp
  then have "timerRows ! 0 \<in> set timerRows" by simp
  then have "length (timerRows ! 0) = 66" using t r n by simp
  moreover have "length (scaleAsciiCharacter (baseArt 52) 2) = 10" using t by simp
  ultimately show ?thesis using h1 h2 r l by blast
qed

text \<open>
  C9. A code unit \<open>c\<close> of the time string that has no entry in the glyph table does not
  make the digit block fail: \<open>generateScaledTimerRows\<close> uses the glyph of the colon for it,
  so the block is the one of the string with \<open>c\<close> replaced by a colon, and rows are
  returned (for any scale that is not negative; \<open>drawDisplay\<close> passes a scale of at least
  1). In \<open>index.js\<close> such a character is skipped: it adds nothing to the rows. For a
  progress fraction in \<open>[0, 1]\<close>, \<open>drawDisplay\<close> composes a frame whatever the values of
  minutes and seconds are.
\<close>

theorem unknown_character_drawn_as_colon:
  assumes "c \<in> set ts" and "ASCII_NUMBERS [c] = None" and "0 \<le> s"
  shows "baseArt c = GLYPH_COLON \<and> baseArt c = baseArt 58 \<and> or_colon c = 58
      \<and> (\<exists>timerRows. generateScaledTimerRows ts s = Inr timerRows)
      \<and> generateScaledTimerRows ts s = generateScaledTimerRows (map or_colon ts) s
      \<and> (\<forall>timerRows. add_char timerRows [c] = timerRows)
      \<and> timerRows_idx ts =
            foldl add_char (replicate charHeight [])
              (filter (\<lambda>char. ASCII_NUMBERS char \<noteq> None) (code_points ts))
      \<and> (\<forall>vp p minutes seconds. 0 \<le> p \<and> p \<le> 1 \<longrightarrow>
            (\<exists>frame. fullDisplay vp p minutes seconds = Inr frame))"
proof -
  have ne: "ts \<noteq> []" using assms(1) by auto
  have a: "baseArt c = GLYPH_COLON" "baseArt c = baseArt 58" "or_colon c = 58"
    using assms(2) by (simp_all add: baseArt_def or_colon_def ASCII_NUMBERS_colon)
  note b = generateScaledTimerRows_total [OF ne assms(3)]
  note d = generateScaledTimerRows_or_colon [of ts s, symmetric]
  have e: "\<forall>timerRows. add_char timerRows [c] = timerRows"
    using assms(2) by (simp add: add_char_unknown)
  have f: "timerRows_idx ts =
            foldl add_char (replicate charHeight [])
              (filter (\<lambda>char. ASCII_NUMBERS char \<noteq> None) (code_points ts))"
    unfolding timerRows_idx_def by (rule foldl_add_char_known)
  show ?thesis using a b d e f fullDisplay_total by blast
qed

theorem unknown_character_drawn_as_colon_witness:
  "45 \<in> set (timeString (- 1) 7) \<and> ASCII_NUMBERS [45] = None \<and> (0::int) \<le> 1
     \<and> timeString (- 1) 7 = ascii ''-1:07''
     \<and> baseArt 45 = GLYPH_COLON
     \<and> generateScaledTimerRows (timeString (- 1) 7) 1
          = generateScaledTimerRows (ascii '':1:07'') 1"
proof -
  have ts: "timeString (- 1) 7 = ascii ''-1:07''" by code_simp
  have h1: "45 \<in> set (timeString (- 1) 7)" unfolding ts by (simp add: ascii_def)
  have h2: "ASCII_NUMBERS [45] = None"
    by (simp add: ASCII_NUMBERS_def ASCII_NUMBERS_entries_def)
  have h3: "(0::int) \<le> 1" by simp
  have m: "map or_colon (timeString (- 1) 7) = ascii '':1:07''" by code_simp
  from unknown_character_drawn_as_colon [OF h1 h2 h3] ts h1 h2 m show ?thesis
    by simp
qed


section \<open>Properties of the countdown driver\<close>

lemma progress_of_range:
  assumes "0 < totalSeconds s" and "0 \<le> timeLeftInSeconds s"
    and "timeLeftInSeconds s \<le> totalSeconds s"
  shows "0 \<le> progress_of s" and "progress_of s \<le> 1"
  using assms by (simp_all add: progress_of_def)

lemma redraw_unchanged:
  "totalSeconds (redraw s) = totalSeconds s"
  "timeLeftInSeconds (redraw s) = timeLeftInSeconds s"
  "started (redraw s) = started s"
  "sigint_listener (redraw s) = sigint_listener s"
  "resize_listener (redraw s) = resize_listener s"
  "timerInterval (redraw s) = timerInterval s"
  "screen (redraw s) = screen s"
  by (simp_all add: redraw_def Let_def split: prod.split)

lemma redraw_drawn:
  "drawn (redraw s) =
     drawn s @ [(progress_of s, timeLeftInSeconds s div 60, timeLeftInSeconds s smod 60)]"
  by (simp add: redraw_def Let_def split: prod.split)

lemma redraw_in_range:
  assumes "0 < totalSeconds s" and "0 \<le> timeLeftInSeconds s"
    and "timeLeftInSeconds s \<le> totalSeconds s"
  shows "\<exists>frame. redraw s =
           s\<lparr>stdout := stdout s @ [CLEAR_SCREEN, frame],
             drawn := drawn s @ [(progress_of s, timeLeftInSeconds s div 60,
                                  timeLeftInSeconds s smod 60)]\<rparr>"
proof -
  obtain frame where
    "drawDisplay (screen s) (progress_of s) (timeLeftInSeconds s div 60)
        (timeLeftInSeconds s smod 60) = ([CLEAR_SCREEN, frame], None)"
    using drawDisplay_in_range [OF progress_of_range [OF assms]] by blast
  then have "redraw s =
           s\<lparr>stdout := stdout s @ [CLEAR_SCREEN, frame],
             drawn := drawn s @ [(progress_of s, timeLeftInSeconds s div 60,
                                  timeLeftInSeconds s smod 60)]\<rparr>"
    by (simp add: redraw_def)
  then show ?thesis ..
qed

lemma redraw_status:
  assumes "0 < totalSeconds s" and "0 \<le> timeLeftInSeconds s"
    and "timeLeftInSeconds s \<le> totalSeconds s"
  shows "status (redraw s) = status s"
  using redraw_in_range [OF assms] by (auto intro: arg_cong [where f = status])

lemma run_dead: "status s \<noteq> Alive \<Longrightarrow> run s es = s"
  by (induction es) (simp_all add: step_def)

lemma run_append: "run s (es @ fs) = run (run s es) fs"
  by (induction es arbitrary: s) simp_all

lemma ticks_Suc: "ticks (Suc k) s = ticks k (step s Tick)"
  by (simp add: ticks_def)

lemma ticks_add: "ticks (a + b) s = ticks b (ticks a s)"
  by (simp add: ticks_def replicate_add run_append)

lemma ticks_dead: "status s \<noteq> Alive \<Longrightarrow> ticks k s = s"
  by (simp add: ticks_def run_dead)

lemma step_Tick_zero:
  assumes "status s = Alive" and "timerInterval s" and "timeLeftInSeconds s \<le> 0"
  shows "step s Tick =
           s\<lparr>timerInterval := False, resize_listener := False,
             stdout := stdout s @ [SHOW_CURSOR, TIMES_UP_MESSAGE], status := Exited 0\<rparr>"
  using assms by (simp add: step_def interval_callback_def)

lemma step_Tick_positive:
  assumes "status s = Alive" and "timerInterval s" and "0 < timeLeftInSeconds s"
  shows "step s Tick = redraw (s\<lparr>timeLeftInSeconds := timeLeftInSeconds s - 1\<rparr>)"
  using assms by (simp add: step_def interval_callback_def)

lemma ticks_countdown:
  assumes "status s = Alive" and "timerInterval s" and "0 < totalSeconds s"
    and "0 \<le> timeLeftInSeconds s" and "timeLeftInSeconds s \<le> totalSeconds s"
    and "int k \<le> timeLeftInSeconds s"
  shows "status (ticks k s) = Alive \<and> timerInterval (ticks k s)
       \<and> timeLeftInSeconds (ticks k s) = timeLeftInSeconds s - int k
       \<and> totalSeconds (ticks k s) = totalSeconds s
       \<and> length (drawn (ticks k s)) = length (drawn s) + k"
  using assms
proof (induction k arbitrary: s)
  case 0
  then show ?case by (simp add: ticks_def)
next
  case (Suc k)
  let ?d = "s\<lparr>timeLeftInSeconds := timeLeftInSeconds s - 1\<rparr>"
  have pos: "0 < timeLeftInSeconds s" using Suc.prems by simp
  have st: "step s Tick = redraw ?d"
    using Suc.prems(1,2) pos by (rule step_Tick_positive)
  have r: "0 < totalSeconds ?d" "0 \<le> timeLeftInSeconds ?d"
    "timeLeftInSeconds ?d \<le> totalSeconds ?d"
    using Suc.prems by simp_all
  have "status (redraw ?d) = Alive" using redraw_status [OF r] Suc.prems(1) by simp
  moreover have "timerInterval (redraw ?d)" using Suc.prems(2) by (simp add: redraw_unchanged)
  moreover have "0 < totalSeconds (redraw ?d)" using r by (simp add: redraw_unchanged)
  moreover have "0 \<le> timeLeftInSeconds (redraw ?d)" using r by (simp add: redraw_unchanged)
  moreover have "timeLeftInSeconds (redraw ?d) \<le> totalSeconds (redraw ?d)"
    using r by (simp add: redraw_unchanged)
  moreover have "int k \<le> timeLeftInSeconds (redraw ?d)"
    using Suc.prems by (simp add: redraw_unchanged)
  ultimately have "status (ticks k (redraw ?d)) = Alive \<and> timerInterval (ticks k (redraw ?d))
       \<and> timeLeftInSeconds (ticks k (redraw ?d)) = timeLeftInSeconds (redraw ?d) - int k
       \<and> totalSeconds (ticks k (redraw ?d)) = totalSeconds (redraw ?d)
       \<and> length (drawn (ticks k (redraw ?d))) = length (drawn (redraw ?d)) + k"
    by (rule Suc.IH)
  then show ?case
    by (simp add: ticks_Suc st redraw_unchanged redraw_drawn)
qed


lemma smod_nonneg: "0 \<le> k \<Longrightarrow> k smod 60 = k mod (60::int)"
  by (cases "k = 0") (simp_all add: smod_int_alt_def)

lemma durationMinutes_pos: "1 \<le> durationMinutes parsed"
  by (simp add: durationMinutes_def split: option.split)

lemma main_fields:
  "totalSeconds (main arg0 parsed vp) = durationMinutes parsed * 60"
  "timeLeftInSeconds (main arg0 parsed vp) = durationMinutes parsed * 60"
  "started (main arg0 parsed vp) = False"
  "sigint_listener (main arg0 parsed vp) = False"
  "resize_listener (main arg0 parsed vp) = False"
  "timerInterval (main arg0 parsed vp) = False"
  "screen (main arg0 parsed vp) = vp"
  "drawn (main arg0 parsed vp) = []"
  "status (main arg0 parsed vp) = Alive"
  by (simp_all add: main_def Let_def)

lemma step_Timeout_main:
  "step (main arg0 parsed vp) Timeout =
     redraw ((main arg0 parsed vp)
       \<lparr>started := True, stdout := stdout (main arg0 parsed vp) @ [HIDE_CURSOR],
        sigint_listener := True, resize_listener := True, timerInterval := True\<rparr>)"
  by (simp add: step_def main_fields timeout_callback_def)

lemma started_main:
  fixes arg0 parsed vp
  defines "s \<equiv> step (main arg0 parsed vp) Timeout"
  shows "status s = Alive" and "started s" and "sigint_listener s" and "resize_listener s"
    and "timerInterval s" and "totalSeconds s = durationMinutes parsed * 60"
    and "timeLeftInSeconds s = durationMinutes parsed * 60" and "screen s = vp"
    and "drawn s = [(0, durationMinutes parsed, 0)]"
proof -
  let ?m = "(main arg0 parsed vp)
       \<lparr>started := True, stdout := stdout (main arg0 parsed vp) @ [HIDE_CURSOR],
        sigint_listener := True, resize_listener := True, timerInterval := True\<rparr>"
  have s: "s = redraw ?m" unfolding s_def by (rule step_Timeout_main)
  have r: "0 < totalSeconds ?m" "0 \<le> timeLeftInSeconds ?m"
    "timeLeftInSeconds ?m \<le> totalSeconds ?m"
    using durationMinutes_pos [of parsed] by (simp_all add: main_fields)
  show "status s = Alive" unfolding s using redraw_status [OF r] by (simp add: main_fields)
  show "started s" "sigint_listener s" "resize_listener s" "timerInterval s"
    "totalSeconds s = durationMinutes parsed * 60"
    "timeLeftInSeconds s = durationMinutes parsed * 60" "screen s = vp"
    unfolding s by (simp_all add: redraw_unchanged main_fields)
  show "drawn s = [(0, durationMinutes parsed, 0)]"
    unfolding s using durationMinutes_pos [of parsed]
    by (simp add: redraw_drawn main_fields progress_of_def smod_nonneg)
qed


lemma redraw_call_ok:
  assumes "0 < totalSeconds s" and "0 \<le> timeLeftInSeconds s"
    and "timeLeftInSeconds s \<le> totalSeconds s"
  shows "drawn_ok (totalSeconds s)
           (progress_of s, timeLeftInSeconds s div 60, timeLeftInSeconds s smod 60)"
proof -
  let ?r = "timeLeftInSeconds s"
  have m: "?r smod 60 = ?r mod 60" using assms(2) by (rule smod_nonneg)
  have r: "60 * (?r div 60) + ?r mod 60 = ?r" by simp
  have a: "0 \<le> ?r div 60" using assms(2) by simp
  have b: "0 \<le> ?r mod 60" "?r mod 60 \<le> 59" by simp_all
  have c: "progress_of s = of_int (totalSeconds s - ?r) / of_int (totalSeconds s)"
    using assms(1) by (simp add: progress_of_def)
  show ?thesis
    unfolding drawn_ok_def m prod.case r
    using a b c assms(3) progress_of_range [OF assms] by blast
qed

lemma driver_inv_redraw:
  assumes "0 < totalSeconds s" and "0 \<le> timeLeftInSeconds s"
    and "timeLeftInSeconds s \<le> totalSeconds s"
    and "list_all (drawn_ok (totalSeconds s)) (drawn s)"
    and "status s = Alive" and "started s"
    and "sigint_listener s" and "resize_listener s" and "timerInterval s"
  shows "driver_inv (redraw s)"
proof -
  have p: "progress_of (redraw s) = progress_of s"
    by (simp add: progress_of_def redraw_unchanged)
  show ?thesis
    unfolding driver_inv_def
    using assms redraw_status [OF assms(1-3)] redraw_call_ok [OF assms(1-3)]
    by (simp add: redraw_unchanged redraw_drawn p)
qed

lemma driver_inv_main: "driver_inv (main arg0 parsed vp)"
  using durationMinutes_pos [of parsed] by (simp add: driver_inv_def main_fields)

lemma driver_inv_step:
  assumes "driver_inv s"
  shows "driver_inv (step s e)"
proof (cases "status s = Alive")
  case False
  then show ?thesis using assms by (simp add: step_def)
next
  case alive: True
  note i = assms [unfolded driver_inv_def]
  show ?thesis
  proof (cases e)
    case Timeout
    show ?thesis
    proof (cases "started s")
      case True
      then show ?thesis using assms alive Timeout by (simp add: step_def)
    next
      case False
      have "driver_inv (redraw (s\<lparr>started := True, stdout := stdout s @ [HIDE_CURSOR],
               sigint_listener := True, resize_listener := True, timerInterval := True\<rparr>))"
        by (rule driver_inv_redraw) (use i alive False in simp_all)
      then show ?thesis using alive Timeout False by (simp add: step_def timeout_callback_def)
    qed
  next
    case Tick
    show ?thesis
    proof (cases "timerInterval s")
      case False
      then show ?thesis using assms alive Tick by (simp add: step_def)
    next
      case interval: True
      then have st: "started s" using i by (auto split: if_splits)
      show ?thesis
      proof (cases "timeLeftInSeconds s \<le> 0")
        case True
        then show ?thesis
          using i alive interval st unfolding Tick step_Tick_zero [OF alive interval True]
          by (simp add: driver_inv_def progress_of_def)
      next
        case False
        then have pos: "0 < timeLeftInSeconds s" by simp
        have "driver_inv (redraw (s\<lparr>timeLeftInSeconds := timeLeftInSeconds s - 1\<rparr>))"
          by (rule driver_inv_redraw) (use i alive st pos in simp_all)
        then show ?thesis unfolding Tick step_Tick_positive [OF alive interval pos] .
      qed
    qed
  next
    case (Resize c r)
    show ?thesis
    proof (cases "resize_listener s")
      case False
      then show ?thesis using i alive Resize
        by (auto simp add: step_def driver_inv_def progress_of_def split: if_splits)
    next
      case True
      then have st: "started s" using i by (auto split: if_splits)
      have "driver_inv (redraw (s\<lparr>screen := \<lparr>columns = c, rows = r\<rparr>\<rparr>))"
        by (rule driver_inv_redraw) (use i alive st in simp_all)
      then show ?thesis using alive Resize True by (simp add: step_def)
    qed
  next
    case Interrupt
    then show ?thesis using i alive
      by (simp add: step_def sigint_callback_def driver_inv_def progress_of_def)
  qed
qed

lemma driver_inv_run: "driver_inv s \<Longrightarrow> driver_inv (run s es)"
  by (induction es arbitrary: s) (simp_all add: driver_inv_step)

lemma started_step: "started s \<Longrightarrow> started (step s e)"
  by (cases e)
     (simp_all add: step_def interval_callback_def sigint_callback_def redraw_unchanged Let_def)

lemma started_run: "started s \<Longrightarrow> started (run s es)"
  by (induction es arbitrary: s) (simp_all add: started_step)

subsection \<open>The interval callback of index.js\<close>

lemma fullDisplay_idx_total:
  assumes "0 \<le> p" and "p \<le> 1"
  shows "\<exists>frame. fullDisplay_idx p minutes seconds = Inr frame"
proof -
  have lo: "0 \<le> of_int 40 * p" using assms(1) by simp
  have hi: "of_int 40 * p \<le> of_int 40" using assms(2) by simp
  have "0 \<le> js_round (of_int 40 * p)" "js_round (of_int 40 * p) \<le> 40"
    using js_round_bounds [OF lo hi] by simp_all
  then show ?thesis
    by (simp add: fullDisplay_idx_def js_repeat_unit Let_def)
qed

lemma draw_idx_in_range:
  assumes "0 \<le> p" and "p \<le> 1"
  shows "\<exists>frame. draw_idx p minutes seconds s =
           s\<lparr>stdout := stdout s @ [CLEAR_SCREEN, frame],
             drawn := drawn s @ [(p, minutes, seconds)]\<rparr>"
proof -
  obtain frame where "fullDisplay_idx p minutes seconds = Inr frame"
    using fullDisplay_idx_total [OF assms] by blast
  then have "draw_idx p minutes seconds s =
           s\<lparr>stdout := stdout s @ [CLEAR_SCREEN, frame],
             drawn := drawn s @ [(p, minutes, seconds)]\<rparr>"
    by (simp add: draw_idx_def drawDisplay_idx_def)
  then show ?thesis ..
qed

lemma step_idx_Tick:
  assumes "status s = Alive" and "timerInterval s" and "0 < totalSeconds s"
    and "0 < timeLeftInSeconds s" and "timeLeftInSeconds s \<le> totalSeconds s"
  shows "timeLeftInSeconds (step_idx s Tick) = timeLeftInSeconds s - 1"
    and "totalSeconds (step_idx s Tick) = totalSeconds s"
    and "status (step_idx s Tick) = (if timeLeftInSeconds s = 1 then Exited 0 else Alive)"
    and "timerInterval (step_idx s Tick) = (timeLeftInSeconds s \<noteq> 1)"
proof -
  let ?s1 = "s\<lparr>timeLeftInSeconds := timeLeftInSeconds s - 1\<rparr>"
  let ?p = "of_int (totalSeconds ?s1 - timeLeftInSeconds ?s1) / of_int (totalSeconds ?s1) :: rat"
  have p: "0 \<le> ?p" "?p \<le> 1" using assms by simp_all
  obtain frame where d: "draw_idx ?p (timeLeftInSeconds ?s1 div 60) (timeLeftInSeconds ?s1 smod 60) ?s1
      = ?s1\<lparr>stdout := stdout ?s1 @ [CLEAR_SCREEN, frame],
            drawn := drawn ?s1 @ [(?p, timeLeftInSeconds ?s1 div 60, timeLeftInSeconds ?s1 smod 60)]\<rparr>"
    using draw_idx_in_range [OF p] by blast
  have st: "step_idx s Tick = interval_callback_idx s"
    using assms(1,2) by (simp add: step_idx_def)
  show "timeLeftInSeconds (step_idx s Tick) = timeLeftInSeconds s - 1"
    "totalSeconds (step_idx s Tick) = totalSeconds s"
    "status (step_idx s Tick) = (if timeLeftInSeconds s = 1 then Exited 0 else Alive)"
    "timerInterval (step_idx s Tick) = (timeLeftInSeconds s \<noteq> 1)"
    unfolding st interval_callback_idx_def Let_def d
    using assms by auto
qed

lemma idx_countdown:
  assumes "status s = Alive" and "timerInterval s" and "0 < totalSeconds s"
    and "timeLeftInSeconds s \<le> totalSeconds s" and "int k < timeLeftInSeconds s"
  shows "status (run_idx s (replicate k Tick)) = Alive
       \<and> timerInterval (run_idx s (replicate k Tick))
       \<and> timeLeftInSeconds (run_idx s (replicate k Tick)) = timeLeftInSeconds s - int k
       \<and> totalSeconds (run_idx s (replicate k Tick)) = totalSeconds s"
  using assms
proof (induction k arbitrary: s)
  case 0
  then show ?case by simp
next
  case (Suc k)
  have pos: "0 < timeLeftInSeconds s" and ne: "timeLeftInSeconds s \<noteq> 1"
    using Suc.prems by simp_all
  note t = step_idx_Tick [OF Suc.prems(1-3) pos Suc.prems(4)]
  have "status (run_idx (step_idx s Tick) (replicate k Tick)) = Alive
       \<and> timerInterval (run_idx (step_idx s Tick) (replicate k Tick))
       \<and> timeLeftInSeconds (run_idx (step_idx s Tick) (replicate k Tick))
            = timeLeftInSeconds (step_idx s Tick) - int k
       \<and> totalSeconds (run_idx (step_idx s Tick) (replicate k Tick))
            = totalSeconds (step_idx s Tick)"
    by (rule Suc.IH) (use t ne Suc.prems in simp_all)
  then show ?case using t by simp
qed

lemma run_idx_append: "run_idx s (es @ fs) = run_idx (run_idx s es) fs"
  by (induction es arbitrary: s) simp_all

lemma idx_completes_on_zero_tick:
  assumes "status s = Alive" and "timerInterval s" and "0 < totalSeconds s"
    and "timeLeftInSeconds s = totalSeconds s" and "n = nat (totalSeconds s)"
  shows "status (run_idx s (replicate (n - 1) Tick)) = Alive"
    and "timeLeftInSeconds (run_idx s (replicate (n - 1) Tick)) = 1"
    and "status (run_idx s (replicate n Tick)) = Exited 0"
    and "timeLeftInSeconds (run_idx s (replicate n Tick)) = 0"
proof -
  let ?s = "run_idx s (replicate (n - 1) Tick)"
  have k: "int (n - 1) < timeLeftInSeconds s" using assms by simp
  have le: "timeLeftInSeconds s \<le> totalSeconds s" using assms by simp
  note c = idx_countdown [OF assms(1-3) le k]
  have l: "timeLeftInSeconds ?s = 1" using c assms by simp
  show "status ?s = Alive" "timeLeftInSeconds ?s = 1" using c l by simp_all
  have "n = Suc (n - 1)" using assms(3,5) by simp
  then have "replicate n Tick = replicate (Suc (n - 1)) Tick" by simp
  then have n: "replicate n Tick = replicate (n - 1) Tick @ [Tick]"
    by (simp only: replicate_Suc replicate_append_same)
  have r: "run_idx s (replicate n Tick) = step_idx ?s Tick"
    unfolding n run_idx_append by simp
  have "0 < totalSeconds ?s" "0 < timeLeftInSeconds ?s" "timeLeftInSeconds ?s \<le> totalSeconds ?s"
    using c l assms by simp_all
  with c have t: "timeLeftInSeconds (step_idx ?s Tick) = timeLeftInSeconds ?s - 1"
    "status (step_idx ?s Tick) = (if timeLeftInSeconds ?s = 1 then Exited 0 else Alive)"
    using step_idx_Tick [of ?s] by simp_all
  show "status (run_idx s (replicate n Tick)) = Exited 0"
    "timeLeftInSeconds (run_idx s (replicate n Tick)) = 0"
    unfolding r using t l by simp_all
qed

subsection \<open>The countdown\<close>

lemma ticks_one: "ticks (Suc 0) s = step s Tick"
  by (simp add: ticks_def)

lemma countdown_general:
  assumes "status s = Alive" and "timerInterval s" and "0 < totalSeconds s"
    and "timeLeftInSeconds s = totalSeconds s"
  defines "n \<equiv> nat (totalSeconds s)"
  shows "int k \<le> totalSeconds s \<Longrightarrow>
           status (ticks k s) = Alive \<and> timeLeftInSeconds (ticks k s) = totalSeconds s - int k"
    and "ticks (Suc n) s =
           (ticks n s)\<lparr>timerInterval := False, resize_listener := False,
                       stdout := stdout (ticks n s) @ [SHOW_CURSOR, TIMES_UP_MESSAGE],
                       status := Exited 0\<rparr>"
    and "totalSeconds s < int k \<Longrightarrow> ticks k s = ticks (Suc n) s"
    and "0 \<le> timeLeftInSeconds (ticks k s) \<and> timeLeftInSeconds (ticks k s) \<le> totalSeconds s"
proof -
  have r: "0 \<le> timeLeftInSeconds s" "timeLeftInSeconds s \<le> totalSeconds s"
    using assms(3,4) by simp_all
  have c: "status (ticks j s) = Alive \<and> timerInterval (ticks j s)
             \<and> timeLeftInSeconds (ticks j s) = totalSeconds s - int j"
    if "int j \<le> totalSeconds s" for j
    using ticks_countdown [OF assms(1-3) r, of j] that assms(4) by simp
  show "int k \<le> totalSeconds s \<Longrightarrow>
          status (ticks k s) = Alive \<and> timeLeftInSeconds (ticks k s) = totalSeconds s - int k"
    using c by simp
  have n: "int n = totalSeconds s" using assms(3) by (simp add: n_def)
  have z: "status (ticks n s) = Alive" "timerInterval (ticks n s)"
    "timeLeftInSeconds (ticks n s) \<le> 0"
    using c [of n] n by simp_all
  have "ticks (Suc n) s = step (ticks n s) Tick"
    using ticks_add [of n "Suc 0" s] by (simp add: ticks_one)
  then show fin: "ticks (Suc n) s =
           (ticks n s)\<lparr>timerInterval := False, resize_listener := False,
                       stdout := stdout (ticks n s) @ [SHOW_CURSOR, TIMES_UP_MESSAGE],
                       status := Exited 0\<rparr>"
    using step_Tick_zero [OF z] by simp
  have dead: "status (ticks (Suc n) s) \<noteq> Alive" unfolding fin by simp
  have after: "ticks j s = ticks (Suc n) s" if "totalSeconds s < int j" for j
  proof -
    have "j = Suc n + (j - Suc n)" using that n by simp
    then have "ticks j s = ticks (j - Suc n) (ticks (Suc n) s)"
      using ticks_add [of "Suc n" "j - Suc n" s] by simp
    then show ?thesis using ticks_dead [OF dead] by simp
  qed
  then show "totalSeconds s < int k \<Longrightarrow> ticks k s = ticks (Suc n) s" .
  show "0 \<le> timeLeftInSeconds (ticks k s) \<and> timeLeftInSeconds (ticks k s) \<le> totalSeconds s"
  proof (cases "int k \<le> totalSeconds s")
    case True
    then show ?thesis using c [of k] by simp
  next
    case False
    then have "ticks k s = ticks (Suc n) s" using after by simp
    moreover have "timeLeftInSeconds (ticks (Suc n) s) = 0"
      unfolding fin using c [of n] n by simp
    ultimately show ?thesis using assms(3) by simp
  qed
qed

lemma one_minute_timer_fields:
  "status one_minute_timer = Alive" "timerInterval one_minute_timer"
  "resize_listener one_minute_timer" "sigint_listener one_minute_timer"
  "totalSeconds one_minute_timer = 60" "timeLeftInSeconds one_minute_timer = 60"
  unfolding one_minute_timer_def
  by (simp_all add: started_main durationMinutes_def)




text \<open>
  In \<open>index.js\<close> the callback decrements and draws first and tests for zero last:
  there the tick that brings the remaining time to 0 is the one that completes.
\<close>

lemma index_js_one_minute:
  "status (run_idx one_minute_timer_idx (replicate 59 Tick)) = Alive
     \<and> timeLeftInSeconds (run_idx one_minute_timer_idx (replicate 60 Tick)) = 0
     \<and> status (run_idx one_minute_timer_idx (replicate 60 Tick)) = Exited 0"
proof -
  have d: "\<exists>frame. draw_idx 0 1 0 s =
             s\<lparr>stdout := stdout s @ [CLEAR_SCREEN, frame], drawn := drawn s @ [(0, 1, 0)]\<rparr>" for s
    by (rule draw_idx_in_range) simp_all
  have f: "status one_minute_timer_idx = Alive" "timerInterval one_minute_timer_idx"
    "totalSeconds one_minute_timer_idx = 60" "timeLeftInSeconds one_minute_timer_idx = 60"
    unfolding one_minute_timer_idx_def step_idx_def timeout_callback_idx_def
    using d [of "(main (Some [49]) (Some 1) vp_80x24)
        \<lparr>started := True, stdout := stdout (main (Some [49]) (Some 1) vp_80x24) @ [HIDE_CURSOR],
         sigint_listener := True, timerInterval := True\<rparr>"]
    by (auto simp add: main_fields durationMinutes_def)
  have h: "0 < totalSeconds one_minute_timer_idx"
    "timeLeftInSeconds one_minute_timer_idx = totalSeconds one_minute_timer_idx"
    "60 = nat (totalSeconds one_minute_timer_idx)"
    using f by simp_all
  note t = idx_completes_on_zero_tick [OF f(1) f(2) h]
  show ?thesis using t by simp
qed

subsection \<open>Resize\<close>

lemma step_Resize_unchanged:
  "timeLeftInSeconds (step s (Resize c r)) = timeLeftInSeconds s"
  "totalSeconds (step s (Resize c r)) = totalSeconds s"
  by (simp_all add: step_def Let_def redraw_unchanged)

lemma run_resizes_unchanged:
  "timeLeftInSeconds (run s (map (\<lambda>(c, r). Resize c r) sizes)) = timeLeftInSeconds s
     \<and> totalSeconds (run s (map (\<lambda>(c, r). Resize c r) sizes)) = totalSeconds s"
  by (induction sizes arbitrary: s) (simp_all add: step_Resize_unchanged split: prod.split)

text \<open>
  C8. A resize never changes the remaining time (nor the total): not one resize, from
  any state, and not any number of them in a row. With the process alive and the
  listener registered, the resize runs \<open>redraw\<close> on the state with the new terminal size:
  it draws once more, for the remaining time as it is, and leaves it as it is.
\<close>

theorem resize_keeps_remaining_time:
  "timeLeftInSeconds (step s (Resize c r)) = timeLeftInSeconds s
     \<and> totalSeconds (step s (Resize c r)) = totalSeconds s
     \<and> timeLeftInSeconds (run s (map (\<lambda>(c, r). Resize c r) sizes)) = timeLeftInSeconds s
     \<and> totalSeconds (run s (map (\<lambda>(c, r). Resize c r) sizes)) = totalSeconds s
     \<and> (status s = Alive \<and> resize_listener s \<longrightarrow>
           step s (Resize c r) = redraw (s\<lparr>screen := \<lparr>columns = c, rows = r\<rparr>\<rparr>)
           \<and> drawn (step s (Resize c r)) =
               drawn s @ [(progress_of s, timeLeftInSeconds s div 60, timeLeftInSeconds s smod 60)])"
proof -
  have "step s (Resize c r) = redraw (s\<lparr>screen := \<lparr>columns = c, rows = r\<rparr>\<rparr>)
          \<and> drawn (step s (Resize c r)) =
               drawn s @ [(progress_of s, timeLeftInSeconds s div 60, timeLeftInSeconds s smod 60)]"
    if "status s = Alive" and "resize_listener s"
    using that by (simp add: step_def redraw_drawn progress_of_def)
  then show ?thesis
    using step_Resize_unchanged [of s c r] run_resizes_unchanged [of s sizes] by blast
qed

theorem resize_keeps_remaining_time_witness:
  "status one_minute_timer = Alive \<and> resize_listener one_minute_timer
     \<and> timeLeftInSeconds one_minute_timer = 60
     \<and> timeLeftInSeconds (run one_minute_timer
          [Resize (Some 120) (Some 40), Resize (Some 1) (Some 1), Resize None None]) = 60
     \<and> drawn (step one_minute_timer (Resize (Some 120) (Some 40))) = [(0, 1, 0), (0, 1, 0)]"
proof -
  note f = one_minute_timer_fields
  have d: "drawn one_minute_timer = [(0, 1, 0)]"
    unfolding one_minute_timer_def by (simp add: started_main durationMinutes_def)
  have p: "progress_of one_minute_timer = 0" using f by (simp add: progress_of_def)
  note t = resize_keeps_remaining_time
         [of one_minute_timer "Some 120" "Some 40" "[(Some 120, Some 40), (Some 1, Some 1), (None, None)]"]
  have a: "timeLeftInSeconds (run one_minute_timer
          [Resize (Some 120) (Some 40), Resize (Some 1) (Some 1), Resize None None]) = 60"
    using t f(6) by simp
  have "drawn (step one_minute_timer (Resize (Some 120) (Some 40))) =
          drawn one_minute_timer @ [(progress_of one_minute_timer,
             timeLeftInSeconds one_minute_timer div 60, timeLeftInSeconds one_minute_timer smod 60)]"
    using t f(1) f(3) by blast
  then have b: "drawn (step one_minute_timer (Resize (Some 120) (Some 40))) = [(0, 1, 0), (0, 1, 0)]"
    by (simp add: d p f(6) smod_nonneg)
  show ?thesis using f a b by simp
qed

subsection \<open>Interrupt\<close>

lemma step_Interrupt_dead: "status (step s Interrupt) \<noteq> Alive"
  by (simp add: step_def sigint_callback_def)

lemma step_Interrupt_registrations:
  "timerInterval (step s Interrupt) = timerInterval s"
  "resize_listener (step s Interrupt) = resize_listener s"
  "timeLeftInSeconds (step s Interrupt) = timeLeftInSeconds s"
  "drawn (step s Interrupt) = drawn s"
  by (simp_all add: step_def sigint_callback_def)

lemma step_Interrupt_listening:
  assumes "status s = Alive" and "sigint_listener s"
  shows "step s Interrupt =
           s\<lparr>stdout := stdout s @ [SHOW_CURSOR, CANCELLED_MESSAGE], status := Exited 0\<rparr>"
  using assms by (simp add: step_def sigint_callback_def)

lemma step_Interrupt_not_listening:
  assumes "status s = Alive" and "\<not> sigint_listener s"
  shows "step s Interrupt = s\<lparr>status := Killed\<rparr>"
  using assms by (simp add: step_def)

lemma run_after_Interrupt: "run (step s Interrupt) es = step s Interrupt"
  using step_Interrupt_dead by (rule run_dead)

lemma listening_after_timeout:
  assumes "status (run (main arg0 parsed vp) (Timeout # es)) = Alive"
  shows "sigint_listener (run (main arg0 parsed vp) (Timeout # es))"
proof -
  let ?s = "run (main arg0 parsed vp) (Timeout # es)"
  have "started (step (main arg0 parsed vp) Timeout)" by (rule started_main)
  then have st: "started ?s" by (simp add: started_run)
  have "driver_inv ?s" using driver_inv_main by (rule driver_inv_run)
  then show ?thesis using st assms by (simp add: driver_inv_def)
qed

text \<open>
  C3, as the code has it. The interrupt listener is registered inside the timeout
  callback. Once that callback has run, an interrupt that finds the process alive, in
  particular one that comes before the first tick, gives a clean cancelled exit: the
  cursor is shown again, the cancellation message written, the process exits with
  status 0 and nothing runs after it; before the first tick the remaining time is
  still the total and only the initial frame has been drawn. During the one-second
  delay before the callback no listener is installed: an interrupt then terminates the
  process with nothing written.
\<close>

theorem interrupt_after_timeout_cancels:
  fixes arg0 parsed vp es
  defines "s0 \<equiv> main arg0 parsed vp"
    and "s1 \<equiv> step (main arg0 parsed vp) Timeout"
    and "s \<equiv> run (main arg0 parsed vp) (Timeout # es)"
  shows "0 < totalSeconds s0
      \<and> step s0 Interrupt = s0\<lparr>status := Killed\<rparr>
      \<and> step s1 Interrupt =
            s1\<lparr>stdout := stdout s1 @ [SHOW_CURSOR, CANCELLED_MESSAGE], status := Exited 0\<rparr>
      \<and> timeLeftInSeconds (step s1 Interrupt) = totalSeconds s0
      \<and> drawn (step s1 Interrupt) = [(0, durationMinutes parsed, 0)]
      \<and> (status s = Alive \<longrightarrow>
            step s Interrupt =
              s\<lparr>stdout := stdout s @ [SHOW_CURSOR, CANCELLED_MESSAGE], status := Exited 0\<rparr>)
      \<and> run (step s Interrupt) fs = step s Interrupt"
proof -
  have a: "0 < totalSeconds s0"
    unfolding s0_def using durationMinutes_pos [of parsed] by (simp add: main_fields)
  have b: "step s0 Interrupt = s0\<lparr>status := Killed\<rparr>"
    unfolding s0_def by (rule step_Interrupt_not_listening) (simp_all add: main_fields)
  have c: "step s1 Interrupt =
            s1\<lparr>stdout := stdout s1 @ [SHOW_CURSOR, CANCELLED_MESSAGE], status := Exited 0\<rparr>"
    unfolding s1_def by (rule step_Interrupt_listening) (rule started_main)+
  have d: "timeLeftInSeconds (step s1 Interrupt) = totalSeconds s0"
    "drawn (step s1 Interrupt) = [(0, durationMinutes parsed, 0)]"
    unfolding s1_def s0_def by (simp_all add: step_Interrupt_registrations started_main main_fields)
  have e: "step s Interrupt =
              s\<lparr>stdout := stdout s @ [SHOW_CURSOR, CANCELLED_MESSAGE], status := Exited 0\<rparr>"
    if "status s = Alive"
    using that unfolding s_def
    by (intro step_Interrupt_listening listening_after_timeout)
  show ?thesis using a b c d e run_after_Interrupt [of s fs] by blast
qed

theorem interrupt_after_timeout_cancels_witness:
  "status (run (main (Some [49]) (Some 1) vp_80x24) [Timeout]) = Alive
     \<and> status (step (run (main (Some [49]) (Some 1) vp_80x24) [Timeout]) Interrupt) = Exited 0
     \<and> stdout (step (run (main (Some [49]) (Some 1) vp_80x24) [Timeout]) Interrupt)
          = stdout (run (main (Some [49]) (Some 1) vp_80x24) [Timeout])
              @ [SHOW_CURSOR, CANCELLED_MESSAGE]
     \<and> timeLeftInSeconds (step (run (main (Some [49]) (Some 1) vp_80x24) [Timeout]) Interrupt) = 60"
proof -
  have r: "run (main (Some [49]) (Some 1) vp_80x24) [Timeout] = one_minute_timer"
    by (simp add: one_minute_timer_def)
  note f = one_minute_timer_fields
  note t = interrupt_after_timeout_cancels [of "Some [49]" "Some 1" vp_80x24 "[]" "[]"]
  have "step one_minute_timer Interrupt =
          one_minute_timer\<lparr>stdout := stdout one_minute_timer @ [SHOW_CURSOR, CANCELLED_MESSAGE],
                            status := Exited 0\<rparr>"
    using t f(1) unfolding r by blast
  then show ?thesis unfolding r using f by simp
qed

text \<open>
  The claim fails as stated: an interrupt during the delay, before the timeout callback
  has run, finds no listener. The process is terminated by the signal; only the line
  announcing the timer has been written, and no cancellation message follows.
\<close>

theorem interrupt_during_delay_counterexample:
  "status (step (main (Some [49]) (Some 1) vp_80x24) Interrupt) = Killed
     \<and> stdout (step (main (Some [49]) (Some 1) vp_80x24) Interrupt) = [starting_line 1]
     \<and> CANCELLED_MESSAGE \<notin> set (stdout (step (main (Some [49]) (Some 1) vp_80x24) Interrupt))
     \<and> \<not> sigint_listener (main (Some [49]) (Some 1) vp_80x24)"
proof -
  let ?m = "main (Some [49]) (Some 1) vp_80x24"
  have k: "step ?m Interrupt = ?m\<lparr>status := Killed\<rparr>"
    by (rule step_Interrupt_not_listening) (simp_all add: main_fields)
  have o: "stdout ?m = [starting_line 1]"
    by (simp add: main_def durationMinutes_def)
  have n: "starting_line 1 \<noteq> CANCELLED_MESSAGE"
    by (simp add: starting_line_def CANCELLED_MESSAGE_def ascii_def)
  show ?thesis unfolding k using o n by (simp add: main_fields)
qed

text \<open>
  C4, as the code has it. After an interrupt nothing runs any more, whatever events
  follow: the process has ended, by \<open>process.exit(0)\<close> at the end of the listener or, with
  no listener installed, by the signal. So no later tick or resize changes the remaining
  time, the frames drawn or the output. The listener itself does not clear the interval
  and does not remove the resize listener: both registrations are as they were when the
  process exits.
\<close>

theorem nothing_runs_after_interrupt:
  "status (step s Interrupt) \<noteq> Alive
     \<and> run (step s Interrupt) es = step s Interrupt
     \<and> timeLeftInSeconds (run (step s Interrupt) es) = timeLeftInSeconds s
     \<and> drawn (run (step s Interrupt) es) = drawn s
     \<and> timerInterval (step s Interrupt) = timerInterval s
     \<and> resize_listener (step s Interrupt) = resize_listener s
     \<and> (status s = Alive \<and> sigint_listener s \<longrightarrow>
           stdout (run (step s Interrupt) es) = stdout s @ [SHOW_CURSOR, CANCELLED_MESSAGE]
           \<and> status (run (step s Interrupt) es) = Exited 0)"
proof -
  note r = run_after_Interrupt [of s es]
  have "stdout (step s Interrupt) = stdout s @ [SHOW_CURSOR, CANCELLED_MESSAGE]
          \<and> status (step s Interrupt) = Exited 0"
    if "status s = Alive" and "sigint_listener s"
    unfolding step_Interrupt_listening [OF that] by simp
  then show ?thesis
    unfolding r using step_Interrupt_dead [of s] step_Interrupt_registrations [of s] by blast
qed

theorem nothing_runs_after_interrupt_witness:
  "status one_minute_timer = Alive \<and> sigint_listener one_minute_timer
     \<and> run (step one_minute_timer Interrupt) [Tick, Resize (Some 100) (Some 30), Tick]
          = step one_minute_timer Interrupt
     \<and> timeLeftInSeconds
          (run (step one_minute_timer Interrupt) [Tick, Resize (Some 100) (Some 30), Tick]) = 60
     \<and> status (run (step one_minute_timer Interrupt) [Tick, Resize (Some 100) (Some 30), Tick])
          = Exited 0"
proof -
  note f = one_minute_timer_fields
  note t = nothing_runs_after_interrupt
             [of one_minute_timer "[Tick, Resize (Some 100) (Some 30), Tick]"]
  have a: "run (step one_minute_timer Interrupt) [Tick, Resize (Some 100) (Some 30), Tick]
          = step one_minute_timer Interrupt"
    using t by blast
  have "timeLeftInSeconds
          (run (step one_minute_timer Interrupt) [Tick, Resize (Some 100) (Some 30), Tick])
          = timeLeftInSeconds one_minute_timer"
    using t by blast
  then have b: "timeLeftInSeconds
          (run (step one_minute_timer Interrupt) [Tick, Resize (Some 100) (Some 30), Tick]) = 60"
    by (simp only: f(6))
  have c: "status (run (step one_minute_timer Interrupt) [Tick, Resize (Some 100) (Some 30), Tick])
          = Exited 0"
    using t f(1) f(4) by blast
  show ?thesis using f a b c by blast
qed

text \<open>
  The claim fails as stated: after the interrupt listener has run on a running timer,
  the interval is still set and the resize listener still registered. (The completion
  branch of the interval callback is the one that clears both.)
\<close>

theorem interrupt_unregisters_counterexample:
  "timerInterval (step one_minute_timer Interrupt)
     \<and> resize_listener (step one_minute_timer Interrupt)
     \<and> status (step one_minute_timer Interrupt) = Exited 0
     \<and> \<not> timerInterval (ticks 61 one_minute_timer)
     \<and> \<not> resize_listener (ticks 61 one_minute_timer)"
proof -
  note f = one_minute_timer_fields
  have i: "step one_minute_timer Interrupt =
          one_minute_timer\<lparr>stdout := stdout one_minute_timer @ [SHOW_CURSOR, CANCELLED_MESSAGE],
                            status := Exited 0\<rparr>"
    using f(1) f(4) by (rule step_Interrupt_listening)
  have h: "0 < totalSeconds one_minute_timer"
    "timeLeftInSeconds one_minute_timer = totalSeconds one_minute_timer"
    using f by simp_all
  have "ticks (Suc (nat (totalSeconds one_minute_timer))) one_minute_timer =
          (ticks (nat (totalSeconds one_minute_timer)) one_minute_timer)
            \<lparr>timerInterval := False, resize_listener := False,
             stdout := stdout (ticks (nat (totalSeconds one_minute_timer)) one_minute_timer)
                         @ [SHOW_CURSOR, TIMES_UP_MESSAGE],
             status := Exited 0\<rparr>"
    using f(1) f(2) h by (rule countdown_general(2))
  then have "ticks (Suc 60) one_minute_timer =
          (ticks 60 one_minute_timer)
            \<lparr>timerInterval := False, resize_listener := False,
             stdout := stdout (ticks 60 one_minute_timer) @ [SHOW_CURSOR, TIMES_UP_MESSAGE],
             status := Exited 0\<rparr>"
    by (simp add: f(5))
  then have c: "\<not> timerInterval (ticks (Suc 60) one_minute_timer)"
    "\<not> resize_listener (ticks (Suc 60) one_minute_timer)"
    by simp_all
  have "Suc 60 = 61" by simp
  with c have "\<not> timerInterval (ticks 61 one_minute_timer)"
    "\<not> resize_listener (ticks 61 one_minute_timer)"
    by simp_all
  then show ?thesis unfolding i using f by simp
qed

subsection \<open>What redraw is called with\<close>



end
